theory Spec2Isabelle
  imports Main "HOL-Library.AList" "HOL-Library.Sublist" "HOL-Library.Char_ord"
    "HOL-Library.List_Lexorder"
begin

section \<open>The translocation pre-processor of correlate-v2\<close>

text \<open>
  A shallow embedding of \<^verbatim>\<open>scripts/process_translocations.py\<close>. The script has one
  function, \<^verbatim>\<open>main\<close>; its phases are embedded one definition per loop, in the order of
  the source, and composed again in \<open>run\<close>.

  Conventions of the embedding.
  \<^item> A Python \<^verbatim>\<open>str\<close> is a \<open>string\<close>. The model is exact on ASCII text: whitespace is the
    ASCII whitespace of \<^verbatim>\<open>str.strip\<close>, \<^verbatim>\<open>str.lower\<close> maps A..Z, and the order of
    \<^verbatim>\<open>sorted\<close> is the lexicographic order of the character codes.
  \<^item> A Python \<^verbatim>\<open>dict\<close> is an association list with distinct keys in insertion order;
    \<open>d[k] = v\<close> is \<open>AList.update k v d\<close> (replace in place, or append a new key) and a
    lookup is \<open>map_of d k\<close>.
  \<^item> A Python \<^verbatim>\<open>set\<close> is a HOL set, \<^verbatim>\<open>len\<close> is \<open>card\<close> and \<^verbatim>\<open>sorted\<close> of a set is
    \<open>sorted_list_of_set\<close>.
  \<^item> Python integers are \<open>int\<close>.
  \<^item> Every way in which \<^verbatim>\<open>main\<close> can stop without writing the output file is a value
    of \<open>failure\<close>; the result of a run is \<open>failure + json_output\<close>.
  \<^item> The files are taken as read: the input of the model is the argument vector, the
    \<^verbatim>\<open>cellLines\<close> array of \<^verbatim>\<open>metadata.json\<close> and what \<^verbatim>\<open>csv.DictReader\<close> delivers, that
    is the header (\<^verbatim>\<open>fieldnames\<close>, \<^verbatim>\<open>None\<close> for an empty file) and the field lists of
    the data rows.
\<close>

subsection \<open>Failures\<close>

text \<open>
  \<open>SystemExit code msg\<close> is \<^verbatim>\<open>print(msg); sys.exit(code)\<close>; the other constructors are the
  exceptions that the statements of \<^verbatim>\<open>main\<close> can raise and that nothing catches.
\<close>

datatype failure =
    SystemExit int string
  | TypeError
  | IndexError
  | AttributeError
  | KeyError

definition MIN_CELL_LINES :: int where
  "MIN_CELL_LINES = 3"

subsection \<open>String operations of the Python library\<close>

definition is_space :: "char \<Rightarrow> bool" where
  "is_space c \<longleftrightarrow> c \<in> set [CHR 0x09, CHR 0x0A, CHR 0x0B, CHR 0x0C, CHR 0x0D,
                            CHR 0x1C, CHR 0x1D, CHR 0x1E, CHR 0x1F, CHR 0x20]"

text \<open>\<^verbatim>\<open>s.strip()\<close>\<close>

definition strip :: "string \<Rightarrow> string" where
  "strip s = rev (dropWhile is_space (rev (dropWhile is_space s)))"

text \<open>\<^verbatim>\<open>s.lower()\<close>\<close>

definition lower_char :: "char \<Rightarrow> char" where
  "lower_char c =
     (case map_of (zip ''ABCDEFGHIJKLMNOPQRSTUVWXYZ'' ''abcdefghijklmnopqrstuvwxyz'') c of
        Some d \<Rightarrow> d
      | None \<Rightarrow> c)"

definition lower :: "string \<Rightarrow> string" where
  "lower s = map lower_char s"

text \<open>\<^verbatim>\<open>s.replace(c, "")\<close> for a one-character \<^verbatim>\<open>c\<close>\<close>

definition remove_char :: "char \<Rightarrow> string \<Rightarrow> string" where
  "remove_char c s = filter (\<lambda>x. x \<noteq> c) s"

text \<open>
  The leftmost occurrence of a separator: \<open>find_sep sep s = Some (a, b)\<close> when
  \<open>s = a @ sep @ b\<close> and \<open>sep\<close> does not start earlier in \<open>s\<close>; \<open>None\<close> when \<open>sep\<close> does
  not occur. The three uses of the source are read off it: \<^verbatim>\<open>sep in s\<close>,
  \<^verbatim>\<open>s.split(sep)[0]\<close> and \<^verbatim>\<open>s.split(sep, 1)\<close>.
\<close>

fun find_sep :: "string \<Rightarrow> string \<Rightarrow> (string \<times> string) option" where
  "find_sep sep [] = (if sep = [] then Some ([], []) else None)"
| "find_sep sep (c # cs) =
     (if prefix sep (c # cs) then Some ([], drop (length sep) (c # cs))
      else map_option (\<lambda>(a, b). (c # a, b)) (find_sep sep cs))"

definition contains :: "string \<Rightarrow> string \<Rightarrow> bool" where
  "contains sep s \<longleftrightarrow> find_sep sep s \<noteq> None"

definition split_first :: "string \<Rightarrow> string \<Rightarrow> string" where
  "split_first sep s = (case find_sep sep s of None \<Rightarrow> s | Some (a, b) \<Rightarrow> a)"

definition split_once :: "string \<Rightarrow> string \<Rightarrow> string list" where
  "split_once sep s = (case find_sep sep s of None \<Rightarrow> [s] | Some (a, b) \<Rightarrow> [a, b])"

subsection \<open>Column detection (lines 51 to 79)\<close>

definition MODEL_COLS :: "string list" where
  "MODEL_COLS = [''ModelID'', ''DepMap_ID'', ''CellLineID'', ''ModelId'']"

text \<open>The first loop: the first header that is one of the four names, with \<^verbatim>\<open>break\<close>.\<close>

fun find_model_col :: "string list \<Rightarrow> string option" where
  "find_model_col [] = None"
| "find_model_col (c # cs) = (if c \<in> set MODEL_COLS then Some c else find_model_col cs)"

text \<open>\<^verbatim>\<open>model_col = cols[0]\<close> when the loop found nothing; an empty header has no first column.\<close>

definition select_model_col :: "string list \<Rightarrow> failure + string" where
  "select_model_col cols =
     (case find_model_col cols of
        Some c \<Rightarrow> Inr c
      | None \<Rightarrow> (case cols of [] \<Rightarrow> Inl IndexError | c # _ \<Rightarrow> Inr c))"

definition normalise :: "string \<Rightarrow> string" where
  "normalise c = remove_char (CHR '' '') (remove_char (CHR ''_'') (lower c))"

record gene_cols =
  gene1_col :: "string option"
  gene2_col :: "string option"
  fusion_name_col :: "string option"

text \<open>The three tuples of lines 66, 68 and 70.\<close>

definition GENE1_NAMES :: "string list" where
  "GENE1_NAMES = [''leftgene'', ''gene1'', ''genea'', ''leftgenename'']"

definition GENE2_NAMES :: "string list" where
  "GENE2_NAMES = [''rightgene'', ''gene2'', ''geneb'', ''rightgenename'']"

definition FUSION_NAMES :: "string list" where
  "FUSION_NAMES = [''fusionname'', ''fusion'', ''name'']"

text \<open>The body of the second loop; there is no \<^verbatim>\<open>break\<close>, so a later header overwrites.\<close>

definition gene_col_step :: "string \<Rightarrow> gene_cols \<Rightarrow> gene_cols" where
  "gene_col_step c st =
     (let cl = normalise c in
      if cl \<in> set GENE1_NAMES then st\<lparr>gene1_col := Some c\<rparr>
      else if cl \<in> set GENE2_NAMES then st\<lparr>gene2_col := Some c\<rparr>
      else if cl \<in> set FUSION_NAMES then st\<lparr>fusion_name_col := Some c\<rparr>
      else st)"

definition detect_gene_cols :: "string list \<Rightarrow> gene_cols" where
  "detect_gene_cols cols =
     fold gene_col_step cols \<lparr>gene1_col = None, gene2_col = None, fusion_name_col = None\<rparr>"

text \<open>The truth value of \<^verbatim>\<open>if col:\<close> for a value that is \<^verbatim>\<open>None\<close> or a string.\<close>

fun truthy :: "string option \<Rightarrow> bool" where
  "truthy None = False"
| "truthy (Some s) = (s \<noteq> [])"

record columns =
  model_col :: string
  gene_columns :: gene_cols

definition NO_COLUMNS_MESSAGE :: string where
  "NO_COLUMNS_MESSAGE = ''Error: Cannot find gene columns or fusion name column''"

definition detect_columns :: "string list option \<Rightarrow> failure + columns" where
  "detect_columns fieldnames =
     (case fieldnames of
        None \<Rightarrow> Inl TypeError
      | Some cols \<Rightarrow>
          (case select_model_col cols of
             Inl e \<Rightarrow> Inl e
           | Inr mc \<Rightarrow>
               (let gc = detect_gene_cols cols in
                if (gene1_col gc = None \<or> gene2_col gc = None) \<and> \<not> truthy (fusion_name_col gc)
                then Inl (SystemExit 1 NO_COLUMNS_MESSAGE)
                else Inr \<lparr>model_col = mc, gene_columns = gc\<rparr>)))"

subsection \<open>Rows (lines 81 to 111)\<close>

text \<open>
  The dictionary that \<^verbatim>\<open>csv.DictReader\<close> makes of a row: \<^verbatim>\<open>dict(zip(fieldnames, row))\<close>,
  where a header without a field (a short row) gets \<^verbatim>\<open>None\<close> and a repeated header keeps
  its last field. \<open>row_get cols row c\<close> is \<^verbatim>\<open>row[c]\<close>: \<open>None\<close> for a missing key,
  \<open>Some None\<close> for the value \<^verbatim>\<open>None\<close>.
\<close>

definition row_get :: "string list \<Rightarrow> string list \<Rightarrow> string \<Rightarrow> string option option" where
  "row_get cols row c =
     map_of (rev (zip cols (map Some row @ replicate (length cols - length row) None))) c"

text \<open>\<^verbatim>\<open>row[c].strip()\<close>\<close>

definition field :: "string list \<Rightarrow> string list \<Rightarrow> string \<Rightarrow> failure + string" where
  "field cols row c =
     (case row_get cols row c of
        None \<Rightarrow> Inl KeyError
      | Some None \<Rightarrow> Inl AttributeError
      | Some (Some s) \<Rightarrow> Inr (strip s))"

text \<open>Lines 90 to 93: the Ensembl identifier in parentheses is cut off.\<close>

definition strip_ensembl :: "string \<Rightarrow> string" where
  "strip_ensembl g = (if contains '' ('' g then strip (split_first '' ('' g) else g)"

text \<open>Lines 97 to 104 on the stripped fusion name; \<open>None\<close> is \<^verbatim>\<open>continue\<close>.\<close>

definition parse_fusion_name :: "string \<Rightarrow> (string \<times> string) option" where
  "parse_fusion_name fname =
     (if contains ''--'' fname then
        (let parts = split_once ''--'' fname
         in Some (strip (parts ! 0), if length parts > 1 then strip (parts ! 1) else ''''))
      else if contains ''-'' fname then
        (let parts = split_once ''-'' fname
         in Some (strip (parts ! 0), if length parts > 1 then strip (parts ! 1) else ''''))
      else None)"

text \<open>Lines 86 to 106: the gene pair of a row, \<open>Inr None\<close> for \<^verbatim>\<open>continue\<close>.\<close>

definition gene_pair ::
  "gene_cols \<Rightarrow> string list \<Rightarrow> string list \<Rightarrow> failure + (string \<times> string) option" where
  "gene_pair gc cols row =
     (if truthy (gene1_col gc) \<and> truthy (gene2_col gc) then
        (case field cols row (the (gene1_col gc)) of
           Inl e \<Rightarrow> Inl e
         | Inr g1 \<Rightarrow>
             (case field cols row (the (gene2_col gc)) of
                Inl e \<Rightarrow> Inl e
              | Inr g2 \<Rightarrow> Inr (Some (strip_ensembl g1, strip_ensembl g2))))
      else if truthy (fusion_name_col gc) then
        (case field cols row (the (fusion_name_col gc)) of
           Inl e \<Rightarrow> Inl e
         | Inr fname \<Rightarrow> Inr (parse_fusion_name fname))
      else Inr None)"

type_synonym fusion = "string \<times> string \<times> string"

text \<open>The body of the row loop: the event to append, or \<open>Inr None\<close> for a skipped row.\<close>

definition extract_row ::
  "string set \<Rightarrow> columns \<Rightarrow> string list \<Rightarrow> string list \<Rightarrow> failure + fusion option" where
  "extract_row valid_cell_lines cs cols row =
     (case field cols row (model_col cs) of
        Inl e \<Rightarrow> Inl e
      | Inr model_id \<Rightarrow>
          if model_id \<notin> valid_cell_lines then Inr None
          else
            (case gene_pair (gene_columns cs) cols row of
               Inl e \<Rightarrow> Inl e
             | Inr None \<Rightarrow> Inr None
             | Inr (Some (g1, g2)) \<Rightarrow>
                 if g1 = [] \<or> g2 = [] then Inr None else Inr (Some (model_id, g1, g2))))"

text \<open>The row loop; \<^verbatim>\<open>csv.DictReader\<close> passes over rows without any field.\<close>

fun extract_rows ::
  "string set \<Rightarrow> columns \<Rightarrow> string list \<Rightarrow> string list list \<Rightarrow> fusion list
     \<Rightarrow> failure + fusion list" where
  "extract_rows valid_cell_lines cs cols [] fusions = Inr fusions"
| "extract_rows valid_cell_lines cs cols (row # rows) fusions =
     (if row = [] then extract_rows valid_cell_lines cs cols rows fusions
      else
        (case extract_row valid_cell_lines cs cols row of
           Inl e \<Rightarrow> Inl e
         | Inr None \<Rightarrow> extract_rows valid_cell_lines cs cols rows fusions
         | Inr (Some ev) \<Rightarrow> extract_rows valid_cell_lines cs cols rows (fusions @ [ev])))"

record csv_file =
  fieldnames :: "string list option"
  data_rows :: "string list list"

definition read_fusions :: "string set \<Rightarrow> csv_file \<Rightarrow> failure + fusion list" where
  "read_fusions valid_cell_lines f =
     (case detect_columns (fieldnames f) of
        Inl e \<Rightarrow> Inl e
      | Inr cs \<Rightarrow> extract_rows valid_cell_lines cs (the (fieldnames f)) (data_rows f) [])"

subsection \<open>The partner index (lines 117 to 121)\<close>

type_synonym cell_data = "(string \<times> string set) list"
type_synonym gene_partners = "(string \<times> cell_data) list"

text \<open>
  \<^verbatim>\<open>gene_partners[g][model_id].add(p)\<close> on the \<^verbatim>\<open>defaultdict\<close> of \<^verbatim>\<open>defaultdict(set)\<close>: a
  missing gene gets an empty dictionary, a missing cell line an empty set.
\<close>

definition add_partner :: "string \<Rightarrow> string \<Rightarrow> string \<Rightarrow> gene_partners \<Rightarrow> gene_partners" where
  "add_partner g model_id p gp =
     (let cd = (case map_of gp g of None \<Rightarrow> [] | Some cd \<Rightarrow> cd);
          s = (case map_of cd model_id of None \<Rightarrow> {} | Some s \<Rightarrow> s)
      in AList.update g (AList.update model_id (insert p s) cd) gp)"

definition add_fusion :: "fusion \<Rightarrow> gene_partners \<Rightarrow> gene_partners" where
  "add_fusion = (\<lambda>(model_id, g1, g2) gp.
     add_partner g2 model_id g1 (add_partner g1 model_id g2 gp))"

definition aggregate :: "fusion list \<Rightarrow> gene_partners" where
  "aggregate fusions = fold add_fusion fusions []"

subsection \<open>Threshold and summary (lines 124 to 173)\<close>

definition filter_genes :: "int \<Rightarrow> gene_partners \<Rightarrow> gene_partners" where
  "filter_genes min_cell_lines gp =
     filter (\<lambda>(gene, cell_data). int (length cell_data) \<ge> min_cell_lines) gp"

text \<open>
  \<^verbatim>\<open>str(min(n_partners, 2))\<close>; the argument of \<^verbatim>\<open>str\<close> is the size of a set cut at 2.
\<close>

definition bucket_of :: "int \<Rightarrow> string" where
  "bucket_of n_partners =
     (if min n_partners 2 = 0 then ''0'' else if min n_partners 2 = 1 then ''1'' else ''2'')"

text \<open>\<^verbatim>\<open>counts[k]\<close> and \<^verbatim>\<open>counts.get(k, 0)\<close> on the \<^verbatim>\<open>defaultdict(int)\<close>.\<close>

definition count_get :: "(string \<times> int) list \<Rightarrow> string \<Rightarrow> int" where
  "count_get cnts k = (case map_of cnts k of None \<Rightarrow> 0 | Some n \<Rightarrow> n)"

record bucket_counts =
  c0 :: int
  c1 :: int
  c2 :: int

record gene_record =
  translocations :: "(string \<times> int) list"
  partners :: "(string \<times> string list) list"
  counts :: bucket_counts
  total_translocated :: int

type_synonym tally = "(string \<times> int) list \<times> (string \<times> string list) list \<times> (string \<times> int) list"

text \<open>The body of the loop over \<^verbatim>\<open>cell_data.items()\<close>.\<close>

definition cell_step :: "string \<times> string set \<Rightarrow> tally \<Rightarrow> tally" where
  "cell_step = (\<lambda>(cell_line, partner_set) (tr, pa, cnts).
     (let n_partners = int (card partner_set);
          bucket = bucket_of n_partners
      in (AList.update cell_line n_partners tr,
          AList.update cell_line (sorted_list_of_set partner_set) pa,
          AList.update bucket (count_get cnts bucket + 1) cnts)))"

definition summarise :: "int \<Rightarrow> cell_data \<Rightarrow> gene_record" where
  "summarise n_valid cell_data =
     (let total = int (length cell_data);
          (tr, pa, cnts) = fold cell_step cell_data ([], [], []);
          n_wt = n_valid - total;
          cnts' = AList.update ''0'' n_wt cnts
      in \<lparr>translocations = tr, partners = pa,
          counts = \<lparr>c0 = count_get cnts' ''0'', c1 = count_get cnts' ''1'',
                    c2 = count_get cnts' ''2''\<rparr>,
          total_translocated = total\<rparr>)"

type_synonym gene_tables = "(string \<times> int) list \<times> (string \<times> gene_record) list"

text \<open>The loop over \<^verbatim>\<open>genes_sorted\<close>; \<^verbatim>\<open>filtered_genes[gene]\<close> raises on a missing key.\<close>

fun build_tables ::
  "gene_partners \<Rightarrow> int \<Rightarrow> string list \<Rightarrow> gene_tables \<Rightarrow> failure + gene_tables" where
  "build_tables filtered_genes n_valid [] acc = Inr acc"
| "build_tables filtered_genes n_valid (gene # gs) (gene_counts, gene_data) =
     (case map_of filtered_genes gene of
        None \<Rightarrow> Inl KeyError
      | Some cell_data \<Rightarrow>
          build_tables filtered_genes n_valid gs
            (AList.update gene (int (length cell_data)) gene_counts,
             AList.update gene (summarise n_valid cell_data) gene_data))"

record json_output =
  genes :: "string list"
  geneCounts :: "(string \<times> int) list"
  geneData :: "(string \<times> gene_record) list"

definition build_output :: "int \<Rightarrow> string set \<Rightarrow> gene_partners \<Rightarrow> failure + json_output" where
  "build_output min_cell_lines valid_cell_lines gp =
     (let filtered_genes = filter_genes min_cell_lines gp;
          genes_sorted = sort (map fst filtered_genes)
      in case build_tables filtered_genes (int (card valid_cell_lines)) genes_sorted ([], []) of
           Inl e \<Rightarrow> Inl e
         | Inr (gene_counts, gene_data) \<Rightarrow>
             Inr \<lparr>genes = genes_sorted, geneCounts = gene_counts, geneData = gene_data\<rparr>)"

subsection \<open>The whole run\<close>

definition USAGE :: string where
  "USAGE = ''Usage: python process_translocations.py <OmicsFusionFiltered.csv>''"

text \<open>
  \<open>run\<close> is \<^verbatim>\<open>main\<close> with the module constant \<^verbatim>\<open>MIN_CELL_LINES\<close> as a parameter; \<open>Inr\<close> is
  the object written to \<^verbatim>\<open>translocations.json\<close>, \<open>Inl\<close> a run that writes no file.
\<close>

definition run :: "int \<Rightarrow> string list \<Rightarrow> string list \<Rightarrow> csv_file \<Rightarrow> failure + json_output" where
  "run min_cell_lines argv cellLines csv =
     (if length argv < 2 then Inl (SystemExit 1 USAGE)
      else
        (let valid_cell_lines = set cellLines in
         case read_fusions valid_cell_lines csv of
           Inl e \<Rightarrow> Inl e
         | Inr fusions \<Rightarrow> build_output min_cell_lines valid_cell_lines (aggregate fusions)))"

definition main :: "string list \<Rightarrow> string list \<Rightarrow> csv_file \<Rightarrow> failure + json_output" where
  "main = run MIN_CELL_LINES"

section \<open>Vocabulary of the proofs\<close>

text \<open>
  The definitions of this section are not part of the script. They name the loop of the
  bucket counts alone, the invariant of the partner index, the contents of the index as a
  function, what a header offers, and one worked input on which the theorems are run.
\<close>

text \<open>The third component of \<open>cell_step\<close>: the update of \<^verbatim>\<open>counts\<close>.\<close>

definition count_step :: "string \<times> string set \<Rightarrow> (string \<times> int) list \<Rightarrow> (string \<times> int) list" where
  "count_step = (\<lambda>(cell_line, partner_set) cnts.
     AList.update (bucket_of (int (card partner_set)))
       (count_get cnts (bucket_of (int (card partner_set))) + 1) cnts)"

text \<open>
  The invariant of \<^verbatim>\<open>gene_partners\<close>: keys are distinct at both levels, no gene has an
  empty dictionary, no cell line an empty or infinite partner set, and every cell line is
  one of \<open>V\<close>.
\<close>

definition gp_inv :: "string set \<Rightarrow> gene_partners \<Rightarrow> bool" where
  "gp_inv V gp \<longleftrightarrow>
     distinct (map fst gp) \<and>
     (\<forall>g cd. map_of gp g = Some cd \<longrightarrow>
        distinct (map fst cd) \<and> cd \<noteq> [] \<and>
        (\<forall>m s. map_of cd m = Some s \<longrightarrow> finite s \<and> s \<noteq> {} \<and> m \<in> V))"

text \<open>\<^verbatim>\<open>gene_partners[g][m]\<close> read without inserting, the empty set when a key is missing.\<close>

definition look :: "gene_partners \<Rightarrow> string \<Rightarrow> string \<Rightarrow> string set" where
  "look gp g m =
     (case map_of gp g of None \<Rightarrow> {}
      | Some cd \<Rightarrow> (case map_of cd m of None \<Rightarrow> {} | Some s \<Rightarrow> s))"



text \<open>The separator occurs somewhere in the string.\<close>

definition occurs :: "string \<Rightarrow> string \<Rightarrow> bool" where
  "occurs sep s \<longleftrightarrow> (\<exists>a b. s = a @ sep @ b)"

text \<open>
  \<open>a\<close> is what stands before the first occurrence of \<open>sep\<close> in \<open>s\<close>, and \<open>b\<close> is
  everything after that occurrence.
\<close>

definition first_split :: "string \<Rightarrow> string \<Rightarrow> string \<Rightarrow> string \<Rightarrow> bool" where
  "first_split sep s a b \<longleftrightarrow>
     s = a @ sep @ b \<and> (\<forall>a' b'. s = a' @ sep @ b' \<longrightarrow> length a \<le> length a')"

text \<open>
  A worked input: four valid cell lines and seven rows, one of them of an unknown cell line
  (\<^verbatim>\<open>ACH-9\<close>), and the events and the output that the script computes from them.
\<close>

definition ex_argv :: "string list" where
  "ex_argv = [''process_translocations.py'', ''OmicsFusionFiltered.csv'']"

definition ex_cellLines :: "string list" where
  "ex_cellLines = [''ACH-1'', ''ACH-2'', ''ACH-3'', ''ACH-4'']"

definition ex_csv :: csv_file where
  "ex_csv = \<lparr>fieldnames = Some [''ModelID'', ''LeftGene'', ''RightGene''],
     data_rows = [[''ACH-1'', ''BCR (ENSG1)'', ''ABL1''],
                  [''ACH-1'', ''BCR'', ''ABL1''],
                  [''ACH-2'', ''BCR'', ''ABL1''],
                  [''ACH-3'', ''BCR'', ''ABL1''],
                  [''ACH-3'', ''BCR'', ''JAK2''],
                  [''ACH-9'', ''BCR'', ''ABL1''],
                  [''ACH-2'', ''EML4'', ''ALK'']]\<rparr>"

definition ex_fusions :: "fusion list" where
  "ex_fusions = [(''ACH-1'', ''BCR'', ''ABL1''), (''ACH-1'', ''BCR'', ''ABL1''),
      (''ACH-2'', ''BCR'', ''ABL1''), (''ACH-3'', ''BCR'', ''ABL1''),
      (''ACH-3'', ''BCR'', ''JAK2''), (''ACH-2'', ''EML4'', ''ALK'')]"

definition ex_abl1 :: gene_record where
  "ex_abl1 = \<lparr>translocations = [(''ACH-1'', 1), (''ACH-2'', 1), (''ACH-3'', 1)],
     partners = [(''ACH-1'', [''BCR'']), (''ACH-2'', [''BCR'']), (''ACH-3'', [''BCR''])],
     counts = \<lparr>c0 = 1, c1 = 3, c2 = 0\<rparr>, total_translocated = 3\<rparr>"

definition ex_bcr :: gene_record where
  "ex_bcr = \<lparr>translocations = [(''ACH-1'', 1), (''ACH-2'', 1), (''ACH-3'', 2)],
     partners = [(''ACH-1'', [''ABL1'']), (''ACH-2'', [''ABL1'']),
                 (''ACH-3'', [''ABL1'', ''JAK2''])],
     counts = \<lparr>c0 = 1, c1 = 2, c2 = 1\<rparr>, total_translocated = 3\<rparr>"

definition ex_out :: json_output where
  "ex_out = \<lparr>genes = [''ABL1'', ''BCR''],
     geneCounts = [(''ABL1'', 3), (''BCR'', 3)],
     geneData = [(''ABL1'', ex_abl1), (''BCR'', ex_bcr)]\<rparr>"


text \<open>The columns detected in the header \<^verbatim>\<open>ModelID,FusionName\<close>.\<close>

definition ex_fallback :: columns where
  "ex_fallback = \<lparr>model_col = ''ModelID'',
     gene_columns = \<lparr>gene1_col = None, gene2_col = None,
                     fusion_name_col = Some ''FusionName''\<rparr>\<rparr>"

section \<open>Dictionaries and the summary of one gene\<close>

lemma update_fresh: "k \<notin> fst ` set al \<Longrightarrow> AList.update k v al = al @ [(k, v)]"
  by (induction al) auto

lemma fold_update_map:
  "distinct (map fst xs) \<Longrightarrow> fst ` set acc \<inter> fst ` set xs = {} \<Longrightarrow>
   fold (\<lambda>(k, v). AList.update k (f v)) xs acc = acc @ map (\<lambda>(k, v). (k, f v)) xs"
proof (induction xs arbitrary: acc)
  case Nil
  then show ?case by simp
next
  case (Cons x xs)
  obtain k v where x: "x = (k, v)" by (cases x)
  from Cons.prems have fresh: "k \<notin> fst ` set acc" and d: "distinct (map fst xs)"
    and k: "k \<notin> fst ` set xs" and disj: "fst ` set acc \<inter> fst ` set xs = {}"
    by (auto simp: x)
  have "fst ` set (acc @ [(k, f v)]) \<inter> fst ` set xs = {}"
    using disj k by auto
  from Cons.IH [OF d this] show ?case
    by (simp add: x update_fresh [OF fresh])
qed

lemma fold_cell_step:
  "fold cell_step cd (tr, pa, cnts) =
     (fold (\<lambda>(c, s). AList.update c (int (card s))) cd tr,
      fold (\<lambda>(c, s). AList.update c (sorted_list_of_set s)) cd pa,
      fold count_step cd cnts)"
  by (induction cd arbitrary: tr pa cnts)
     (simp_all add: cell_step_def count_step_def Let_def split: prod.splits)

lemma count_get_update:
  "count_get (AList.update b n cnts) k = (if k = b then n else count_get cnts k)"
  by (simp add: count_get_def update_conv')

lemma bucket_of_cases:
  "bucket_of (int n) = (if n = 0 then ''0'' else if n = 1 then ''1'' else ''2'')"
  by (auto simp: bucket_of_def min_def)

lemma count_fold_1:
  "count_get (fold count_step cd cnts) ''1'' =
     count_get cnts ''1'' + int (length (filter (\<lambda>(c, s). card s = 1) cd))"
  by (induction cd arbitrary: cnts)
     (auto simp: count_step_def count_get_update bucket_of_cases split: prod.splits)

lemma count_fold_2:
  "count_get (fold count_step cd cnts) ''2'' =
     count_get cnts ''2'' + int (length (filter (\<lambda>(c, s). card s \<ge> 2) cd))"
  by (induction cd arbitrary: cnts)
     (auto simp: count_step_def count_get_update bucket_of_cases split: prod.splits)

lemma length_filter_split:
  "\<forall>(c, s) \<in> set cd. card s \<ge> 1 \<Longrightarrow>
   length (filter (\<lambda>(c, s). card s = 1) cd) + length (filter (\<lambda>(c, s). card s \<ge> 2) cd)
     = length cd"
  by (induction cd) auto

lemma count_get_empty: "count_get [] k = 0"
  by (simp add: count_get_def)

lemma summarise_fields:
  assumes d: "distinct (map fst cd)"
  shows "translocations (summarise n cd) = map (\<lambda>(c, s). (c, int (card s))) cd"
    and "partners (summarise n cd) = map (\<lambda>(c, s). (c, sorted_list_of_set s)) cd"
    and "total_translocated (summarise n cd) = int (length cd)"
    and "c0 (counts (summarise n cd)) = n - int (length cd)"
    and "c1 (counts (summarise n cd)) = int (length (filter (\<lambda>(c, s). card s = 1) cd))"
    and "c2 (counts (summarise n cd)) = int (length (filter (\<lambda>(c, s). card s \<ge> 2) cd))"
  using fold_update_map [OF d, of "[]"]
  by (simp_all add: summarise_def fold_cell_step count_get_update count_fold_1 count_fold_2
        Let_def count_get_empty)

section \<open>The output tables\<close>

lemma map_of_fold_update_key:
  "map_of (fold (\<lambda>g. AList.update g (F g)) gs acc) k =
     (if k \<in> set gs then Some (F k) else map_of acc k)"
  by (induction gs arbitrary: acc) (auto simp: update_conv')

lemma build_tables_ok:
  "set gs \<subseteq> fst ` set fg \<Longrightarrow>
   build_tables fg n gs (gc, gd) =
     Inr (fold (\<lambda>g. AList.update g (int (length (the (map_of fg g))))) gs gc,
          fold (\<lambda>g. AList.update g (summarise n (the (map_of fg g)))) gs gd)"
proof (induction gs arbitrary: gc gd)
  case Nil
  then show ?case by simp
next
  case (Cons g gs)
  from Cons.prems have "g \<in> fst ` set fg" by simp
  then obtain cd where cd: "map_of fg g = Some cd"
    by (metis map_of_eq_None_iff not_Some_eq)
  from Cons.prems have "set gs \<subseteq> fst ` set fg" by simp
  from Cons.IH [OF this] show ?case by (simp add: cd)
qed

lemma build_output_eq:
  "build_output thr valid gp =
     Inr \<lparr>genes = sort (map fst (filter_genes thr gp)),
          geneCounts = fold (\<lambda>g. AList.update g
              (int (length (the (map_of (filter_genes thr gp) g)))))
              (sort (map fst (filter_genes thr gp))) [],
          geneData = fold (\<lambda>g. AList.update g
              (summarise (int (card valid)) (the (map_of (filter_genes thr gp) g))))
              (sort (map fst (filter_genes thr gp))) []\<rparr>"
proof -
  have "set (sort (map fst (filter_genes thr gp))) \<subseteq> fst ` set (filter_genes thr gp)"
    by simp
  from build_tables_ok [OF this] show ?thesis
    by (simp add: build_output_def Let_def)
qed

lemma lookup_filter_unique:
  assumes "distinct (map fst al)"
  shows "map_of (filter Q al) key =
     Option.bind (map_of al key) (\<lambda>val. if Q (key, val) then Some val else None)"
  using assms
proof (induction al)
  case Nil
  then show ?case by simp
next
  case (Cons entry al)
  obtain k' v' where entry: "entry = (k', v')" by (cases entry)
  from Cons.prems have "map_of al k' = None"
    by (simp add: entry map_of_eq_None_iff)
  with Cons show ?case
    by (auto simp: entry)
qed

lemma map_of_filter_genes:
  "distinct (map fst gp) \<Longrightarrow>
   map_of (filter_genes thr gp) g =
     (case map_of gp g of None \<Rightarrow> None
      | Some cd \<Rightarrow> if thr \<le> int (length cd) then Some cd else None)"
  by (simp add: filter_genes_def lookup_filter_unique split: option.splits)

lemma keys_filter_genes:
  "distinct (map fst gp) \<Longrightarrow>
   g \<in> fst ` set (filter_genes thr gp) \<longleftrightarrow>
     (\<exists>cd. map_of gp g = Some cd \<and> thr \<le> int (length cd))"
proof -
  assume d: "distinct (map fst gp)"
  have "g \<in> fst ` set (filter_genes thr gp) \<longleftrightarrow> map_of (filter_genes thr gp) g \<noteq> None"
    by (simp add: map_of_eq_None_iff)
  then show ?thesis
    by (simp add: map_of_filter_genes [OF d] split: option.splits)
qed

lemma build_output_geneData:
  assumes d: "distinct (map fst gp)" and b: "build_output thr valid gp = Inr out"
  shows "map_of (geneData out) g =
     (case map_of gp g of None \<Rightarrow> None
      | Some cd \<Rightarrow> if thr \<le> int (length cd)
          then Some (summarise (int (card valid)) cd) else None)"
proof -
  from b have "geneData out = fold (\<lambda>g. AList.update g
      (summarise (int (card valid)) (the (map_of (filter_genes thr gp) g))))
      (sort (map fst (filter_genes thr gp))) []"
    by (simp add: build_output_eq) (cases out, auto)
  then show ?thesis
    using keys_filter_genes [OF d, of g thr]
    by (auto simp: map_of_fold_update_key map_of_filter_genes [OF d] split: option.splits)
qed

section \<open>The partner index\<close>

lemma map_of_add_partner:
  "map_of (add_partner g m p gp) g' =
     (if g' = g
      then Some (AList.update m
             (insert p (case map_of (case map_of gp g of None \<Rightarrow> [] | Some cd \<Rightarrow> cd) m of
                          None \<Rightarrow> {} | Some s \<Rightarrow> s))
             (case map_of gp g of None \<Rightarrow> [] | Some cd \<Rightarrow> cd))
      else map_of gp g')"
  by (simp add: add_partner_def Let_def update_conv')

lemma gp_inv_empty: "gp_inv V []"
  by (simp add: gp_inv_def)

lemma gp_inv_add_partner:
  assumes inv: "gp_inv V gp" and m: "m \<in> V"
  shows "gp_inv V (add_partner g m p gp)"
proof -
  have d: "distinct (map fst (add_partner g m p gp))"
    using inv by (simp add: gp_inv_def add_partner_def Let_def distinct_update)
  have "distinct (map fst cd') \<and> cd' \<noteq> [] \<and>
        (\<forall>m' s. map_of cd' m' = Some s \<longrightarrow> finite s \<and> s \<noteq> {} \<and> m' \<in> V)"
    if h: "map_of (add_partner g m p gp) g' = Some cd'" for g' cd'
  proof (cases "g' = g")
    case False
    with h inv show ?thesis by (simp add: map_of_add_partner gp_inv_def)
  next
    case True
    show ?thesis
    proof (cases "map_of gp g")
      case None
      with h True have "cd' = [(m, {p})]"
        by (simp add: map_of_add_partner)
      with m show ?thesis by auto
    next
      case (Some cd)
      with inv have cdinv: "distinct (map fst cd)"
        "\<And>m' s. map_of cd m' = Some s \<Longrightarrow> finite s \<and> s \<noteq> {} \<and> m' \<in> V"
        by (auto simp: gp_inv_def)
      from h True Some have cd': "cd' = AList.update m
          (insert p (case map_of cd m of None \<Rightarrow> {} | Some s \<Rightarrow> s)) cd"
        by (simp add: map_of_add_partner)
      show ?thesis
        using cdinv m
        by (auto simp: cd' distinct_update update_conv' split: if_splits option.splits)
    qed
  qed
  with d show ?thesis by (simp add: gp_inv_def)
qed

lemma gp_inv_fold:
  "gp_inv V gp \<Longrightarrow> \<forall>(m, g1, g2) \<in> set fs. m \<in> V \<Longrightarrow> gp_inv V (fold add_fusion fs gp)"
proof (induction fs arbitrary: gp)
  case Nil
  then show ?case by simp
next
  case (Cons f fs)
  obtain m g1 g2 where f: "f = (m, g1, g2)" by (cases f)
  from Cons.prems have m: "m \<in> V" and rest: "\<forall>(m, g1, g2) \<in> set fs. m \<in> V"
    by (auto simp: f)
  have "gp_inv V (add_fusion f gp)"
    by (simp add: f add_fusion_def gp_inv_add_partner Cons.prems(1) m)
  from Cons.IH [OF this rest] show ?case by simp
qed

lemma gp_inv_aggregate:
  "\<forall>(m, g1, g2) \<in> set fs. m \<in> V \<Longrightarrow> gp_inv V (aggregate fs)"
  by (simp add: aggregate_def gp_inv_fold gp_inv_empty)

lemma look_add_partner:
  "look (add_partner g m p gp) g' m' =
     (if g' = g \<and> m' = m then insert p (look gp g m) else look gp g' m')"
  by (auto simp: look_def map_of_add_partner update_conv' split: option.splits)

lemma look_fold:
  "look (fold add_fusion fs gp) g m =
     look gp g m \<union> {p. (m, g, p) \<in> set fs \<or> (m, p, g) \<in> set fs}"
proof (induction fs arbitrary: gp)
  case Nil
  then show ?case by simp
next
  case (Cons f fs)
  obtain m' g1 g2 where f: "f = (m', g1, g2)" by (cases f)
  show ?case
    by (simp add: Cons.IH) (auto simp: f add_fusion_def look_add_partner split: if_splits)
qed

lemma look_aggregate:
  "look (aggregate fs) g m = {p. (m, g, p) \<in> set fs \<or> (m, p, g) \<in> set fs}"
  by (simp add: aggregate_def look_fold) (simp add: look_def)

lemma keys_look:
  assumes inv: "gp_inv V gp" and g: "map_of gp g = Some cd"
  shows "fst ` set cd = {m. look gp g m \<noteq> {}}"
proof -
  have "m \<in> fst ` set cd \<longleftrightarrow> look gp g m \<noteq> {}" for m
  proof (cases "map_of cd m")
    case None
    moreover from None have "m \<notin> fst ` set cd" by (simp add: map_of_eq_None_iff)
    ultimately show ?thesis by (simp add: look_def g)
  next
    case (Some s)
    with inv g have "s \<noteq> {}" by (auto simp: gp_inv_def)
    moreover from Some have "m \<in> fst ` set cd"
      by (metis map_of_eq_None_iff option.distinct(1))
    ultimately show ?thesis by (simp add: look_def g Some)
  qed
  then show ?thesis by auto
qed

lemma extract_row_valid:
  "extract_row V cs cols row = Inr (Some (m, g1, g2)) \<Longrightarrow> m \<in> V \<and> g1 \<noteq> [] \<and> g2 \<noteq> []"
  by (auto simp: extract_row_def split: sum.splits if_splits option.splits prod.splits)

lemma extract_rows_events:
  "extract_rows V cs cols rows acc = Inr fs \<Longrightarrow>
   \<forall>(m, g1, g2) \<in> set acc. m \<in> V \<and> g1 \<noteq> [] \<and> g2 \<noteq> [] \<Longrightarrow>
   \<forall>(m, g1, g2) \<in> set fs. m \<in> V \<and> g1 \<noteq> [] \<and> g2 \<noteq> []"
proof (induction rows arbitrary: acc)
  case Nil
  then show ?case by simp
next
  case (Cons row rows)
  show ?case
  proof (cases "row = []")
    case True
    with Cons show ?thesis by simp
  next
    case False
    show ?thesis
    proof (cases "extract_row V cs cols row")
      case (Inl e)
      with Cons.prems False show ?thesis by simp
    next
      case (Inr r)
      show ?thesis
      proof (cases r)
        case None
        with Cons Inr False show ?thesis by simp
      next
        case (Some ev)
        obtain m g1 g2 where ev: "ev = (m, g1, g2)" by (cases ev)
        from Inr Some ev have "m \<in> V \<and> g1 \<noteq> [] \<and> g2 \<noteq> []"
          using extract_row_valid by blast
        with Cons.prems(2)
        have "\<forall>(m, g1, g2) \<in> set (acc @ [ev]). m \<in> V \<and> g1 \<noteq> [] \<and> g2 \<noteq> []"
          by (auto simp: ev)
        moreover from Cons.prems(1) False Inr Some
        have "extract_rows V cs cols rows (acc @ [ev]) = Inr fs" by simp
        ultimately show ?thesis using Cons.IH by blast
      qed
    qed
  qed
qed

lemma read_fusions_events:
  "read_fusions V csv = Inr fs \<Longrightarrow> \<forall>(m, g1, g2) \<in> set fs. m \<in> V \<and> g1 \<noteq> [] \<and> g2 \<noteq> []"
  by (auto simp: read_fusions_def split: sum.splits dest!: extract_rows_events)

lemma run_InrD:
  "run thr argv cl csv = Inr out \<Longrightarrow>
   2 \<le> length argv \<and>
   (\<exists>fs. read_fusions (set cl) csv = Inr fs \<and>
         build_output thr (set cl) (aggregate fs) = Inr out)"
  by (auto simp: run_def Let_def split: if_splits sum.splits)

section \<open>Counts, threshold, symmetry and keys\<close>

lemma aggregate_inv: "gp_inv UNIV (aggregate fs)"
  by (rule gp_inv_aggregate) auto

lemma aggregate_keys:
  assumes "map_of (aggregate fs) g = Some cd"
  shows "fst ` set cd = {m. \<exists>p. (m, g, p) \<in> set fs \<or> (m, p, g) \<in> set fs}"
  using keys_look [OF aggregate_inv assms] by (auto simp: look_aggregate)

lemma cell_data_facts:
  assumes inv: "gp_inv V gp" and g: "map_of gp g = Some cd"
  shows "distinct (map fst cd)" and "fst ` set cd \<subseteq> V"
    and "\<forall>(c, s) \<in> set cd. finite s \<and> card s \<ge> 1"
proof -
  from inv g show d: "distinct (map fst cd)" by (auto simp: gp_inv_def)
  have *: "finite s \<and> s \<noteq> {} \<and> c \<in> V" if "(c, s) \<in> set cd" for c s
  proof -
    from that d have "map_of cd c = Some s" by simp
    with inv g show ?thesis unfolding gp_inv_def by blast
  qed
  then show "fst ` set cd \<subseteq> V" by auto
  from * show "\<forall>(c, s) \<in> set cd. finite s \<and> card s \<ge> 1"
    by (auto simp: Suc_le_eq card_gt_0_iff)
qed

lemma main_geneData:
  assumes m: "main argv cellLines csv = Inr out"
    and r: "map_of (geneData out) gene = Some r"
  shows "\<exists>fusions cell_data.
           read_fusions (set cellLines) csv = Inr fusions \<and>
           gp_inv (set cellLines) (aggregate fusions) \<and>
           map_of (aggregate fusions) gene = Some cell_data \<and>
           3 \<le> int (length cell_data) \<and>
           r = summarise (int (card (set cellLines))) cell_data"
proof -
  from m obtain fs where fs: "read_fusions (set cellLines) csv = Inr fs"
    and b: "build_output 3 (set cellLines) (aggregate fs) = Inr out"
    using run_InrD [of 3 argv cellLines csv out] by (auto simp: main_def MIN_CELL_LINES_def)
  have inv: "gp_inv (set cellLines) (aggregate fs)"
    using read_fusions_events [OF fs] by (intro gp_inv_aggregate) auto
  then have d: "distinct (map fst (aggregate fs))" by (simp add: gp_inv_def)
  from r build_output_geneData [OF d b, of gene]
  obtain cd where "map_of (aggregate fs) gene = Some cd" "3 \<le> int (length cd)"
    "r = summarise (int (card (set cellLines))) cd"
    by (auto split: option.splits if_splits)
  with fs inv show ?thesis by blast
qed

text \<open>
  \<^bold>\<open>C1.\<close> For every gene of the output \<open>geneData\<close>, the three bucket counts add up to the
  number of valid cell lines (the size of the set made of \<^verbatim>\<open>cellLines\<close>), and bucket
  \<^verbatim>\<open>"0"\<close> counts exactly the valid cell lines that are not a key of that gene's entry
  in the partner index.
\<close>

theorem bucket_counts_cover_valid_cell_lines:
  assumes "main argv cellLines csv = Inr out"
    and "map_of (geneData out) gene = Some r"
  shows "c0 (counts r) + c1 (counts r) + c2 (counts r) = int (card (set cellLines)) \<and>
         (\<exists>fusions cell_data.
            read_fusions (set cellLines) csv = Inr fusions \<and>
            map_of (aggregate fusions) gene = Some cell_data \<and>
            c0 (counts r) = int (card {m \<in> set cellLines. m \<notin> fst ` set cell_data}))"
proof -
  from main_geneData [OF assms] obtain fs cd where
    fs: "read_fusions (set cellLines) csv = Inr fs"
    and inv: "gp_inv (set cellLines) (aggregate fs)"
    and cd: "map_of (aggregate fs) gene = Some cd"
    and r: "r = summarise (int (card (set cellLines))) cd"
    by blast
  note facts = cell_data_facts [OF inv cd]
  have "\<forall>(c, s) \<in> set cd. card s \<ge> 1" using facts(3) by auto
  from length_filter_split [OF this]
  have sum12: "c1 (counts r) + c2 (counts r) = int (length cd)"
    by (simp add: r summarise_fields [OF facts(1)] flip: of_nat_add)
  have c0: "c0 (counts r) = int (card (set cellLines)) - int (length cd)"
    by (simp add: r summarise_fields [OF facts(1)])
  have len: "length cd = card (fst ` set cd)"
    using distinct_card [OF facts(1)] by simp
  have "{m \<in> set cellLines. m \<notin> fst ` set cd} = set cellLines - fst ` set cd"
    by auto
  then have "card {m \<in> set cellLines. m \<notin> fst ` set cd}
      = card (set cellLines) - card (fst ` set cd)"
    using facts(2) by (simp add: card_Diff_subset)
  moreover have "card (fst ` set cd) \<le> card (set cellLines)"
    using facts(2) by (simp add: card_mono)
  ultimately have "c0 (counts r) = int (card {m \<in> set cellLines. m \<notin> fst ` set cd})"
    using c0 len by simp
  with fs cd sum12 c0 show ?thesis by auto
qed

lemma fold_update_keys:
  "distinct gs \<Longrightarrow> set gs \<inter> fst ` set acc = {} \<Longrightarrow>
   fold (\<lambda>g. AList.update g (F g)) gs acc = acc @ map (\<lambda>g. (g, F g)) gs"
proof (induction gs arbitrary: acc)
  case Nil
  then show ?case by simp
next
  case (Cons g gs)
  from Cons.prems have fresh: "g \<notin> fst ` set acc" and d: "distinct gs"
    and disj: "set gs \<inter> fst ` set (acc @ [(g, F g)]) = {}"
    by auto
  from Cons.IH [OF d disj] show ?case
    by (simp add: update_fresh [OF fresh])
qed

lemma fold_update_keys_fst:
  "distinct gs \<Longrightarrow> map fst (fold (\<lambda>g. AList.update g (F g)) gs []) = gs"
  using fold_update_keys [of gs "[]" F] by (simp add: comp_def)

lemma build_output_facts:
  assumes d: "distinct (map fst gp)" and b: "build_output thr valid gp = Inr out"
  shows "genes out = sort (map fst (filter_genes thr gp))"
    and "map fst (geneCounts out) = genes out"
    and "map fst (geneData out) = genes out"
    and "distinct (genes out)"
    and "g \<in> set (genes out) \<longleftrightarrow> (\<exists>cd. map_of gp g = Some cd \<and> thr \<le> int (length cd))"
    and "map_of (geneCounts out) g =
     (case map_of gp g of None \<Rightarrow> None
      | Some cd \<Rightarrow> if thr \<le> int (length cd) then Some (int (length cd)) else None)"
proof -
  let ?gs = "sort (map fst (filter_genes thr gp))"
  from b have out: "out = \<lparr>genes = ?gs,
      geneCounts = fold (\<lambda>g. AList.update g
              (int (length (the (map_of (filter_genes thr gp) g))))) ?gs [],
      geneData = fold (\<lambda>g. AList.update g
              (summarise (int (card valid)) (the (map_of (filter_genes thr gp) g)))) ?gs []\<rparr>"
    by (simp add: build_output_eq)
  show g: "genes out = ?gs" by (simp add: out)
  have dg: "distinct ?gs"
    using d by (simp add: filter_genes_def distinct_map_filter)
  then show "distinct (genes out)" by (simp add: g)
  show "map fst (geneCounts out) = genes out"
    by (simp add: out fold_update_keys_fst [OF dg])
  show "map fst (geneData out) = genes out"
    by (simp add: out fold_update_keys_fst [OF dg])
  show mem: "g \<in> set (genes out) \<longleftrightarrow> (\<exists>cd. map_of gp g = Some cd \<and> thr \<le> int (length cd))"
    using keys_filter_genes [OF d, of g thr] by (simp add: g)
  show "map_of (geneCounts out) g =
     (case map_of gp g of None \<Rightarrow> None
      | Some cd \<Rightarrow> if thr \<le> int (length cd) then Some (int (length cd)) else None)"
    using keys_filter_genes [OF d, of g thr]
    by (auto simp: out map_of_fold_update_key map_of_filter_genes [OF d] split: option.splits)
qed

lemma main_InrD:
  assumes "main argv cellLines csv = Inr out"
  shows "\<exists>fusions. read_fusions (set cellLines) csv = Inr fusions \<and>
           gp_inv (set cellLines) (aggregate fusions) \<and>
           build_output 3 (set cellLines) (aggregate fusions) = Inr out"
proof -
  from assms obtain fs where fs: "read_fusions (set cellLines) csv = Inr fs"
    and b: "build_output 3 (set cellLines) (aggregate fs) = Inr out"
    using run_InrD [of 3 argv cellLines csv out] by (auto simp: main_def MIN_CELL_LINES_def)
  have "gp_inv (set cellLines) (aggregate fs)"
    using read_fusions_events [OF fs] by (intro gp_inv_aggregate) auto
  with fs b show ?thesis by blast
qed

text \<open>
  \<^bold>\<open>C2.\<close> For every gene of the output, \<open>total_translocated\<close> is the sum of buckets
  \<^verbatim>\<open>"1"\<close> and \<^verbatim>\<open>"2"\<close> and is at least 3, the value of \<^verbatim>\<open>MIN_CELL_LINES\<close>; a gene
  that fewer than 3 distinct cell lines have an event with is in none of the three parts of
  the output. (By \<open>aggregate_keys\<close> the cell lines that have an event with a gene are the
  keys of the gene's entry in the partner index.)
\<close>

theorem total_translocated_threshold:
  assumes "main argv cellLines csv = Inr out"
  shows "(\<forall>gene r. map_of (geneData out) gene = Some r \<longrightarrow>
            total_translocated r = c1 (counts r) + c2 (counts r) \<and>
            total_translocated r \<ge> 3) \<and>
         (\<forall>fusions gene. read_fusions (set cellLines) csv = Inr fusions \<longrightarrow>
            card {m. \<exists>p. (m, gene, p) \<in> set fusions \<or> (m, p, gene) \<in> set fusions} < 3 \<longrightarrow>
            gene \<notin> set (genes out) \<and> map_of (geneCounts out) gene = None \<and>
            map_of (geneData out) gene = None)"
proof -
  have first: "total_translocated r = c1 (counts r) + c2 (counts r) \<and> total_translocated r \<ge> 3"
    if r: "map_of (geneData out) gene = Some r" for gene r
  proof -
    from main_geneData [OF assms r] obtain fs cd where
      inv: "gp_inv (set cellLines) (aggregate fs)"
      and cd: "map_of (aggregate fs) gene = Some cd"
      and len: "3 \<le> int (length cd)"
      and r: "r = summarise (int (card (set cellLines))) cd"
      by blast
    note facts = cell_data_facts [OF inv cd]
    have "\<forall>(c, s) \<in> set cd. card s \<ge> 1" using facts(3) by auto
    from length_filter_split [OF this]
    have "c1 (counts r) + c2 (counts r) = int (length cd)"
      by (simp add: r summarise_fields [OF facts(1)] flip: of_nat_add)
    with len show ?thesis by (simp add: r summarise_fields [OF facts(1)])
  qed
  have second: "gene \<notin> set (genes out) \<and> map_of (geneCounts out) gene = None \<and>
      map_of (geneData out) gene = None"
    if fus: "read_fusions (set cellLines) csv = Inr fusions"
      and few: "card {m. \<exists>p. (m, gene, p) \<in> set fusions \<or> (m, p, gene) \<in> set fusions} < 3"
    for fusions gene
  proof -
    from main_InrD [OF assms] fus have inv: "gp_inv (set cellLines) (aggregate fusions)"
      and b: "build_output 3 (set cellLines) (aggregate fusions) = Inr out"
      by auto
    from inv have d: "distinct (map fst (aggregate fusions))" by (simp add: gp_inv_def)
    have no: "\<not> 3 \<le> int (length cd)" if cd: "map_of (aggregate fusions) gene = Some cd" for cd
    proof -
      have "length cd = card (fst ` set cd)"
        using distinct_card [OF cell_data_facts(1) [OF inv cd]] by simp
      with few show ?thesis by (simp add: aggregate_keys [OF cd])
    qed
    then show ?thesis
      using build_output_facts(5,6) [OF d b, of gene] build_output_geneData [OF d b, of gene]
      by (auto split: option.splits)
  qed
  from first second show ?thesis by blast
qed

text \<open>
  \<^bold>\<open>C3.\<close> Aggregation is symmetric: for an accepted event \<open>(C, A, B)\<close> whose genes are both
  in the output, \<open>B\<close> is among the partners of \<open>A\<close> under \<open>C\<close> and \<open>A\<close> among those of \<open>B\<close>
  under \<open>C\<close>.
\<close>

theorem aggregation_symmetric:
  assumes "main argv cellLines csv = Inr out"
    and "read_fusions (set cellLines) csv = Inr fusions"
    and "(C, A, B) \<in> set fusions"
    and "map_of (geneData out) A = Some ra"
    and "map_of (geneData out) B = Some rb"
  shows "(\<exists>ps. map_of (partners ra) C = Some ps \<and> B \<in> set ps) \<and>
         (\<exists>ps. map_of (partners rb) C = Some ps \<and> A \<in> set ps)"
proof -
  have one: "\<exists>ps. map_of (partners r) C = Some ps \<and> p \<in> set ps"
    if r: "map_of (geneData out) g = Some r" and p: "p \<in> look (aggregate fusions) g C" for g r p
  proof -
    from main_geneData [OF assms(1) r] assms(2) obtain cd where
      inv: "gp_inv (set cellLines) (aggregate fusions)"
      and cd: "map_of (aggregate fusions) g = Some cd"
      and r: "r = summarise (int (card (set cellLines))) cd"
      by auto
    note facts = cell_data_facts [OF inv cd]
    from p cd obtain s where s: "map_of cd C = Some s" and ps: "p \<in> s"
      by (auto simp: look_def split: option.splits)
    from s have "(C, s) \<in> set cd" by (rule map_of_SomeD)
    with facts(3) have "finite s" by auto
    with ps have "p \<in> set (sorted_list_of_set s)" by simp
    moreover have "map_of (partners r) C = Some (sorted_list_of_set s)"
      by (simp add: r summarise_fields [OF facts(1)] map_of_map s)
    ultimately show ?thesis by simp
  qed
  from assms(3) have "B \<in> look (aggregate fusions) A C" "A \<in> look (aggregate fusions) B C"
    by (auto simp: look_aggregate)
  with one [OF assms(4)] one [OF assms(5)] show ?thesis by blast
qed

text \<open>
  \<^bold>\<open>C4.\<close> The \<open>genes\<close> array of the output is sorted and without repetition, and it is the
  key list, hence the key set, both of \<open>geneCounts\<close> and of \<open>geneData\<close>.
\<close>

theorem genes_sorted_and_keys:
  assumes "main argv cellLines csv = Inr out"
  shows "sorted (genes out) \<and> distinct (genes out) \<and>
         map fst (geneCounts out) = genes out \<and> map fst (geneData out) = genes out \<and>
         set (genes out) = fst ` set (geneCounts out) \<and>
         set (genes out) = fst ` set (geneData out)"
proof -
  from main_InrD [OF assms] obtain fs where
    inv: "gp_inv (set cellLines) (aggregate fs)"
    and b: "build_output 3 (set cellLines) (aggregate fs) = Inr out"
    by blast
  from inv have d: "distinct (map fst (aggregate fs))" by (simp add: gp_inv_def)
  note f = build_output_facts [OF d b]
  have "sorted (genes out)" by (simp add: f(1))
  moreover have "set (genes out) = fst ` set (geneCounts out)"
    using f(2) by (metis set_map)
  moreover have "set (genes out) = fst ` set (geneData out)"
    using f(3) by (metis set_map)
  ultimately show ?thesis using f(2,3,4) by simp
qed

section \<open>Column detection and failures\<close>




























section \<open>The theorems on the worked input\<close>

lemma ex_read: "read_fusions (set ex_cellLines) ex_csv = Inr ex_fusions"
  by code_simp

lemma ex_main: "main ex_argv ex_cellLines ex_csv = Inr ex_out"
  by code_simp

lemma ex_lookup:
  "map_of (geneData ex_out) ''BCR'' = Some ex_bcr"
  "map_of (geneData ex_out) ''ABL1'' = Some ex_abl1"
  by (simp_all add: ex_out_def)

theorem bucket_counts_cover_valid_cell_lines_witness:
  "main ex_argv ex_cellLines ex_csv = Inr ex_out \<and>
   map_of (geneData ex_out) ''BCR'' = Some ex_bcr \<and>
   c0 (counts ex_bcr) + c1 (counts ex_bcr) + c2 (counts ex_bcr) = int (card (set ex_cellLines)) \<and>
   (\<exists>fusions cell_data.
      read_fusions (set ex_cellLines) ex_csv = Inr fusions \<and>
      map_of (aggregate fusions) ''BCR'' = Some cell_data \<and>
      c0 (counts ex_bcr) = int (card {m \<in> set ex_cellLines. m \<notin> fst ` set cell_data}))"
  using bucket_counts_cover_valid_cell_lines [OF ex_main ex_lookup(1)] ex_main ex_lookup(1)
  by blast

lemma ex_jak2:
  "{m. \<exists>p. (m, ''JAK2'', p) \<in> set ex_fusions \<or> (m, p, ''JAK2'') \<in> set ex_fusions} = {''ACH-3''}"
  by (auto simp: ex_fusions_def)

theorem total_translocated_threshold_witness:
  "main ex_argv ex_cellLines ex_csv = Inr ex_out \<and>
   map_of (geneData ex_out) ''BCR'' = Some ex_bcr \<and>
   total_translocated ex_bcr = c1 (counts ex_bcr) + c2 (counts ex_bcr) \<and>
   total_translocated ex_bcr \<ge> 3 \<and>
   read_fusions (set ex_cellLines) ex_csv = Inr ex_fusions \<and>
   card {m. \<exists>p. (m, ''JAK2'', p) \<in> set ex_fusions \<or> (m, p, ''JAK2'') \<in> set ex_fusions} < 3 \<and>
   ''JAK2'' \<notin> set (genes ex_out) \<and> map_of (geneData ex_out) ''JAK2'' = None"
proof -
  have few: "card {m. \<exists>p. (m, ''JAK2'', p) \<in> set ex_fusions \<or> (m, p, ''JAK2'') \<in> set ex_fusions} < 3"
    by (simp add: ex_jak2)
  from total_translocated_threshold [OF ex_main] ex_lookup(1) ex_read few ex_main
  show ?thesis by blast
qed

theorem aggregation_symmetric_witness:
  "main ex_argv ex_cellLines ex_csv = Inr ex_out \<and>
   read_fusions (set ex_cellLines) ex_csv = Inr ex_fusions \<and>
   map_of (geneData ex_out) ''BCR'' = Some ex_bcr \<and>
   map_of (geneData ex_out) ''ABL1'' = Some ex_abl1 \<and>
   (''ACH-1'', ''BCR'', ''ABL1'') \<in> set ex_fusions \<and>
   (\<exists>ps. map_of (partners ex_bcr) ''ACH-1'' = Some ps \<and> ''ABL1'' \<in> set ps) \<and>
   (\<exists>ps. map_of (partners ex_abl1) ''ACH-1'' = Some ps \<and> ''BCR'' \<in> set ps)"
proof -
  have mem: "(''ACH-1'', ''BCR'', ''ABL1'') \<in> set ex_fusions"
    by (simp add: ex_fusions_def)
  from aggregation_symmetric [OF ex_main ex_read mem ex_lookup(1) ex_lookup(2)]
    ex_main ex_read mem ex_lookup
  show ?thesis by blast
qed

theorem genes_sorted_and_keys_witness:
  "main ex_argv ex_cellLines ex_csv = Inr ex_out \<and>
   genes ex_out = [''ABL1'', ''BCR''] \<and>
   sorted (genes ex_out) \<and> distinct (genes ex_out) \<and>
   map fst (geneCounts ex_out) = genes ex_out \<and> map fst (geneData ex_out) = genes ex_out \<and>
   set (genes ex_out) = fst ` set (geneCounts ex_out) \<and>
   set (genes ex_out) = fst ` set (geneData ex_out)"
proof -
  have "genes ex_out = [''ABL1'', ''BCR'']" by (simp add: ex_out_def)
  with genes_sorted_and_keys [OF ex_main] ex_main show ?thesis by blast
qed





text \<open>
  \<^bold>\<open>C8.\<close> The worked example of the specification, with the threshold set to 1: the rows
  \<^verbatim>\<open>("ACH-1","BCR (ENSG1)","ABL1")\<close>, \<^verbatim>\<open>("ACH-1","BCR","ABL1")\<close>, \<^verbatim>\<open>("ACH-2","BCR","ABL1")\<close>
  and the valid cell lines ACH-1, ACH-2, ACH-3 give, for BCR, the translocations
  \<^verbatim>\<open>{"ACH-1":1,"ACH-2":1}\<close>, the counts \<^verbatim>\<open>{"0":1,"1":2,"2":0}\<close> and a total of 2.
\<close>

theorem worked_example_bcr:
  "\<exists>out r.
     run 1 [''process_translocations.py'', ''OmicsFusionFiltered.csv'']
       [''ACH-1'', ''ACH-2'', ''ACH-3'']
       \<lparr>fieldnames = Some [''ModelID'', ''LeftGene'', ''RightGene''],
        data_rows = [[''ACH-1'', ''BCR (ENSG1)'', ''ABL1''],
                     [''ACH-1'', ''BCR'', ''ABL1''],
                     [''ACH-2'', ''BCR'', ''ABL1'']]\<rparr> = Inr out \<and>
     map_of (geneData out) ''BCR'' = Some r \<and>
     translocations r = [(''ACH-1'', 1), (''ACH-2'', 1)] \<and>
     counts r = \<lparr>c0 = 1, c1 = 2, c2 = 0\<rparr> \<and>
     total_translocated r = 2"
proof -
  have "run 1 [''process_translocations.py'', ''OmicsFusionFiltered.csv'']
       [''ACH-1'', ''ACH-2'', ''ACH-3'']
       \<lparr>fieldnames = Some [''ModelID'', ''LeftGene'', ''RightGene''],
        data_rows = [[''ACH-1'', ''BCR (ENSG1)'', ''ABL1''],
                     [''ACH-1'', ''BCR'', ''ABL1''],
                     [''ACH-2'', ''BCR'', ''ABL1'']]\<rparr>
     = Inr \<lparr>genes = [''ABL1'', ''BCR''],
        geneCounts = [(''ABL1'', 2), (''BCR'', 2)],
        geneData = [(''ABL1'', \<lparr>translocations = [(''ACH-1'', 1), (''ACH-2'', 1)],
                       partners = [(''ACH-1'', [''BCR'']), (''ACH-2'', [''BCR''])],
                       counts = \<lparr>c0 = 1, c1 = 2, c2 = 0\<rparr>, total_translocated = 2\<rparr>),
                    (''BCR'', \<lparr>translocations = [(''ACH-1'', 1), (''ACH-2'', 1)],
                       partners = [(''ACH-1'', [''ABL1'']), (''ACH-2'', [''ABL1''])],
                       counts = \<lparr>c0 = 1, c1 = 2, c2 = 0\<rparr>, total_translocated = 2\<rparr>)]\<rparr>"
    by code_simp
  then show ?thesis by simp
qed

section \<open>The identifier column and the fusion-name fallback\<close>

lemma prefix_drop: "prefix xs ys \<Longrightarrow> xs @ drop (length xs) ys = ys"
  by (auto simp: prefix_def)

lemma find_sep_SomeD: "find_sep sep s = Some (a, b) \<Longrightarrow> s = a @ sep @ b"
proof (induction s arbitrary: a)
  case Nil
  then show ?case by (auto split: if_splits)
next
  case (Cons c cs)
  show ?case
  proof (cases "prefix sep (c # cs)")
    case True
    with Cons.prems have "a = []" "b = drop (length sep) (c # cs)" by simp_all
    with prefix_drop [OF True] show ?thesis by simp
  next
    case False
    with Cons.prems obtain a0 where "find_sep sep cs = Some (a0, b)" "a = c # a0"
      by auto
    with Cons.IH show ?thesis by simp
  qed
qed

lemma find_sep_first:
  "find_sep sep s = Some (a, b) \<Longrightarrow> s = a' @ sep @ b' \<Longrightarrow> length a \<le> length a'"
proof (induction s arbitrary: a a')
  case Nil
  then show ?case by (auto split: if_splits)
next
  case (Cons c cs)
  show ?case
  proof (cases "prefix sep (c # cs)")
    case True
    with Cons.prems(1) have "a = []" by simp
    then show ?thesis by simp
  next
    case False
    with Cons.prems(1) obtain a0 where a0: "find_sep sep cs = Some (a0, b)" "a = c # a0"
      by auto
    from False Cons.prems(2) have "a' \<noteq> []" by auto
    with Cons.prems(2) obtain a0' where "a' = c # a0'" "cs = a0' @ sep @ b'"
      by (cases a') auto
    with Cons.IH [OF a0(1)] a0(2) show ?thesis by simp
  qed
qed

lemma find_sep_NoneD: "find_sep sep s = None \<Longrightarrow> s \<noteq> a @ sep @ b"
proof (induction s arbitrary: a)
  case Nil
  then show ?case by (auto split: if_splits)
next
  case (Cons c cs)
  from Cons.prems have np: "\<not> prefix sep (c # cs)" and none: "find_sep sep cs = None"
    by (auto split: if_splits)
  show ?case
  proof
    assume eq: "c # cs = a @ sep @ b"
    show False
    proof (cases a)
      case Nil
      with eq np show False by auto
    next
      case (Cons x a0)
      with eq have "cs = a0 @ sep @ b" by simp
      with Cons.IH [OF none] show False by blast
    qed
  qed
qed

lemma contains_occurs: "contains sep s \<longleftrightarrow> occurs sep s"
proof
  assume "contains sep s"
  then obtain a b where "find_sep sep s = Some (a, b)" by (auto simp: contains_def)
  from find_sep_SomeD [OF this] show "occurs sep s" by (auto simp: occurs_def)
next
  assume "occurs sep s"
  then obtain a b where s: "s = a @ sep @ b" by (auto simp: occurs_def)
  have "find_sep sep s \<noteq> None"
  proof
    assume "find_sep sep s = None"
    from find_sep_NoneD [OF this, of a b] s show False by simp
  qed
  then show "contains sep s" by (simp add: contains_def)
qed

lemma find_sep_first_split: "find_sep sep s = Some (a, b) \<longleftrightarrow> first_split sep s a b"
proof
  assume "find_sep sep s = Some (a, b)"
  then show "first_split sep s a b"
    by (auto simp: first_split_def dest: find_sep_SomeD find_sep_first)
next
  assume fs: "first_split sep s a b"
  then have s: "s = a @ sep @ b" by (simp add: first_split_def)
  have "find_sep sep s \<noteq> None"
  proof
    assume "find_sep sep s = None"
    from find_sep_NoneD [OF this, of a b] s show False by simp
  qed
  then obtain a0 b0 where f: "find_sep sep s = Some (a0, b0)" by auto
  from find_sep_SomeD [OF f] have s0: "s = a0 @ sep @ b0" .
  from find_sep_first [OF f s] have "length a0 \<le> length a" .
  moreover from fs s0 have "length a \<le> length a0" by (auto simp: first_split_def)
  ultimately have "length a0 = length a" by simp
  with s s0 have "a0 = a \<and> b0 = b" by (metis append_eq_append_conv same_append_eq)
  with f show "find_sep sep s = Some (a, b)" by simp
qed

lemma parse_fusion_name_Some:
  "parse_fusion_name fname = Some (g1, g2) \<longleftrightarrow>
     (\<exists>a b. first_split (if occurs ''--'' fname then ''--'' else ''-'') fname a b \<and>
            g1 = strip a \<and> g2 = strip b)"
proof (cases "occurs ''--'' fname")
  case True
  then obtain a b where f: "find_sep ''--'' fname = Some (a, b)"
    by (auto simp: contains_def simp flip: contains_occurs)
  with True show ?thesis
    by (auto simp: parse_fusion_name_def contains_occurs split_once_def Let_def
        simp flip: find_sep_first_split)
next
  case False
  show ?thesis
  proof (cases "occurs ''-'' fname")
    case True
    then obtain a b where f: "find_sep ''-'' fname = Some (a, b)"
      by (auto simp: contains_def simp flip: contains_occurs)
    with True False show ?thesis
      by (auto simp: parse_fusion_name_def contains_occurs split_once_def Let_def
          simp flip: find_sep_first_split)
  next
    case no: False
    then have "\<not> contains ''-'' fname" by (simp add: contains_occurs)
    then have "find_sep ''-'' fname = None"
      by (cases "find_sep ''-'' fname") (auto simp: contains_def)
    with no False show ?thesis
      by (auto simp: parse_fusion_name_def contains_occurs simp flip: find_sep_first_split)
  qed
qed

text \<open>
  \<^bold>\<open>C6, as amended.\<close> On the fallback path (no pair of gene columns, a fusion-name
  column) a row of a valid cell line never fails, and it yields an event exactly when the
  name splits at the first occurrence of the separator into two parts that are not empty
  once trimmed: the separator is the double hyphen if the name contains one and the single
  hyphen otherwise, the first gene is the trimmed text before that first occurrence and
  the second gene the trimmed whole remainder after it. Every other row is passed over.
\<close>

theorem fusion_name_split_at_first_separator:
  assumes "\<not> (truthy (gene1_col (gene_columns cs)) \<and> truthy (gene2_col (gene_columns cs)))"
    and "truthy (fusion_name_col (gene_columns cs))"
    and "field cols row (model_col cs) = Inr model_id"
    and "model_id \<in> valid_cell_lines"
    and "field cols row (the (fusion_name_col (gene_columns cs))) = Inr fname"
  shows "(\<exists>r. extract_row valid_cell_lines cs cols row = Inr r) \<and>
         (extract_row valid_cell_lines cs cols row = Inr (Some (m, g1, g2)) \<longleftrightarrow>
            m = model_id \<and> g1 \<noteq> [] \<and> g2 \<noteq> [] \<and>
            (\<exists>a b. first_split (if occurs ''--'' fname then ''--'' else ''-'') fname a b \<and>
                   g1 = strip a \<and> g2 = strip b))"
proof -
  have gp: "gene_pair (gene_columns cs) cols row = Inr (parse_fusion_name fname)"
    using assms(1,2,5) by (auto simp: gene_pair_def)
  have ex: "(\<exists>a b. first_split (if occurs ''--'' fname then ''--'' else ''-'') fname a b \<and>
                   g1 = strip a \<and> g2 = strip b) \<longleftrightarrow> parse_fusion_name fname = Some (g1, g2)"
    by (simp add: parse_fusion_name_Some)
  show ?thesis
    unfolding ex
    by (auto simp: extract_row_def assms(3,4) gp split: option.splits)
qed

lemma ex_fallback_row:
  "\<not> (truthy (gene1_col (gene_columns ex_fallback)) \<and> truthy (gene2_col (gene_columns ex_fallback)))"
  "truthy (fusion_name_col (gene_columns ex_fallback))"
  "field [''ModelID'', ''FusionName''] [''ACH-1'', ''A-B-C''] (model_col ex_fallback) = Inr ''ACH-1''"
  "field [''ModelID'', ''FusionName''] [''ACH-1'', ''A-B-C'']
     (the (fusion_name_col (gene_columns ex_fallback))) = Inr ''A-B-C''"
  "extract_row {''ACH-1''} ex_fallback [''ModelID'', ''FusionName''] [''ACH-1'', ''A-B-C'']
     = Inr (Some (''ACH-1'', ''A'', ''B-C''))"
  by code_simp+

theorem fusion_name_split_at_first_separator_witness:
  "extract_row {''ACH-1''} ex_fallback [''ModelID'', ''FusionName''] [''ACH-1'', ''A-B-C'']
     = Inr (Some (''ACH-1'', ''A'', ''B-C'')) \<and>
   (\<exists>a b. first_split (if occurs ''--'' ''A-B-C'' then ''--'' else ''-'') ''A-B-C'' a b \<and>
          ''A'' = strip a \<and> ''B-C'' = strip b)"
proof -
  have v: "''ACH-1'' \<in> {''ACH-1''}" by simp
  from fusion_name_split_at_first_separator [OF ex_fallback_row(1,2,3) v ex_fallback_row(4),
      of "''ACH-1''" "''A''" "''B-C''"] ex_fallback_row(5)
  show ?thesis by simp
qed

text \<open>
  \<^bold>\<open>C6 as stated fails.\<close> For the name \<^verbatim>\<open>A-B-C\<close>, three segments between single
  hyphens, the pair is \<^verbatim>\<open>A\<close> and \<^verbatim>\<open>B-C\<close>, not the first and the second segment.
\<close>

theorem fusion_name_three_segments_counterexample:
  "read_fusions {''ACH-1''}
     \<lparr>fieldnames = Some [''ModelID'', ''FusionName''],
      data_rows = [[''ACH-1'', ''A-B-C'']]\<rparr> = Inr [(''ACH-1'', ''A'', ''B-C'')] \<and>
   read_fusions {''ACH-1''}
     \<lparr>fieldnames = Some [''ModelID'', ''FusionName''],
      data_rows = [[''ACH-1'', ''A-B-C'']]\<rparr> \<noteq> Inr [(''ACH-1'', ''A'', ''B'')]"
  by code_simp

lemma find_model_col_Some:
  "find_model_col cols = Some c \<longleftrightarrow>
     (\<exists>pre post. cols = pre @ c # post \<and> c \<in> set MODEL_COLS \<and>
        (\<forall>x \<in> set pre. x \<notin> set MODEL_COLS))"
proof (induction cols)
  case Nil
  then show ?case by simp
next
  case (Cons x cols)
  show ?case
  proof (cases "x \<in> set MODEL_COLS")
    case True
    have "(\<exists>pre post. x # cols = pre @ c # post \<and> c \<in> set MODEL_COLS \<and>
        (\<forall>y \<in> set pre. y \<notin> set MODEL_COLS)) \<longleftrightarrow> x = c"
    proof
      assume "\<exists>pre post. x # cols = pre @ c # post \<and> c \<in> set MODEL_COLS \<and>
        (\<forall>y \<in> set pre. y \<notin> set MODEL_COLS)"
      then obtain pre post where e: "x # cols = pre @ c # post"
        and n: "\<forall>y \<in> set pre. y \<notin> set MODEL_COLS" by blast
      show "x = c"
      proof (cases pre)
        case Nil
        with e show ?thesis by simp
      next
        case (Cons y ys)
        with e n True show ?thesis by auto
      qed
    next
      assume "x = c"
      with True have "x # cols = [] @ c # cols \<and> c \<in> set MODEL_COLS \<and>
        (\<forall>y \<in> set []. y \<notin> set MODEL_COLS)" by simp
      then show "\<exists>pre post. x # cols = pre @ c # post \<and> c \<in> set MODEL_COLS \<and>
        (\<forall>y \<in> set pre. y \<notin> set MODEL_COLS)" by blast
    qed
    with True show ?thesis by auto
  next
    case False
    have "(\<exists>pre post. x # cols = pre @ c # post \<and> c \<in> set MODEL_COLS \<and>
        (\<forall>y \<in> set pre. y \<notin> set MODEL_COLS)) \<longleftrightarrow>
      (\<exists>pre post. cols = pre @ c # post \<and> c \<in> set MODEL_COLS \<and>
        (\<forall>y \<in> set pre. y \<notin> set MODEL_COLS))"
    proof
      assume "\<exists>pre post. x # cols = pre @ c # post \<and> c \<in> set MODEL_COLS \<and>
        (\<forall>y \<in> set pre. y \<notin> set MODEL_COLS)"
      then obtain pre post where e: "x # cols = pre @ c # post" and c: "c \<in> set MODEL_COLS"
        and n: "\<forall>y \<in> set pre. y \<notin> set MODEL_COLS" by blast
      from e c False obtain ys where "pre = x # ys" by (cases pre) auto
      with e n c have "cols = ys @ c # post \<and> c \<in> set MODEL_COLS \<and>
        (\<forall>y \<in> set ys. y \<notin> set MODEL_COLS)" by simp
      then show "\<exists>pre post. cols = pre @ c # post \<and> c \<in> set MODEL_COLS \<and>
        (\<forall>y \<in> set pre. y \<notin> set MODEL_COLS)" by blast
    next
      assume "\<exists>pre post. cols = pre @ c # post \<and> c \<in> set MODEL_COLS \<and>
        (\<forall>y \<in> set pre. y \<notin> set MODEL_COLS)"
      then obtain pre post where "cols = pre @ c # post" "c \<in> set MODEL_COLS"
        "\<forall>y \<in> set pre. y \<notin> set MODEL_COLS" by blast
      with False have "x # cols = (x # pre) @ c # post \<and> c \<in> set MODEL_COLS \<and>
        (\<forall>y \<in> set (x # pre). y \<notin> set MODEL_COLS)" by simp
      then show "\<exists>pre post. x # cols = pre @ c # post \<and> c \<in> set MODEL_COLS \<and>
        (\<forall>y \<in> set pre. y \<notin> set MODEL_COLS)" by blast
    qed
    with False Cons.IH show ?thesis by simp
  qed
qed

lemma find_model_col_None:
  "find_model_col cols = None \<longleftrightarrow> (\<forall>x \<in> set cols. x \<notin> set MODEL_COLS)"
  by (induction cols) auto

text \<open>
  \<^bold>\<open>C5, as amended.\<close> The identifier column is found by exact, case-sensitive comparison of
  the headers with the four names ModelID, DepMap_ID, CellLineID and ModelId: it is the
  first header that is one of them, and the first column when no header is. A header that
  differs from the four names only in letter case is not recognised.
\<close>

theorem identifier_column_exact_match:
  "set MODEL_COLS = {''ModelID'', ''DepMap_ID'', ''CellLineID'', ''ModelId''} \<and>
   (select_model_col cols = Inr c \<longleftrightarrow>
      (\<exists>pre post. cols = pre @ c # post \<and> c \<in> set MODEL_COLS \<and>
         (\<forall>x \<in> set pre. x \<notin> set MODEL_COLS)) \<or>
      (cols \<noteq> [] \<and> c = hd cols \<and> (\<forall>x \<in> set cols. x \<notin> set MODEL_COLS))) \<and>
   (\<forall>cs. detect_columns (Some cols) = Inr cs \<longrightarrow> select_model_col cols = Inr (model_col cs))"
proof -
  have a: "set MODEL_COLS = {''ModelID'', ''DepMap_ID'', ''CellLineID'', ''ModelId''}"
    by (simp add: MODEL_COLS_def)
  have b: "select_model_col cols = Inr c \<longleftrightarrow>
      (\<exists>pre post. cols = pre @ c # post \<and> c \<in> set MODEL_COLS \<and>
         (\<forall>x \<in> set pre. x \<notin> set MODEL_COLS)) \<or>
      (cols \<noteq> [] \<and> c = hd cols \<and> (\<forall>x \<in> set cols. x \<notin> set MODEL_COLS))"
  proof (cases "find_model_col cols")
    case None
    then have no: "\<forall>x \<in> set cols. x \<notin> set MODEL_COLS"
      by (simp add: find_model_col_None)
    have nofirst: "\<not> (\<exists>pre post. cols = pre @ c # post \<and> c \<in> set MODEL_COLS \<and>
         (\<forall>x \<in> set pre. x \<notin> set MODEL_COLS))"
      using find_model_col_Some [of cols c] None by simp
    have "select_model_col cols = Inr c \<longleftrightarrow> cols \<noteq> [] \<and> c = hd cols"
      using None by (cases cols) (auto simp: select_model_col_def)
    with no nofirst show ?thesis by blast
  next
    case (Some d)
    then have "\<not> (\<forall>x \<in> set cols. x \<notin> set MODEL_COLS)"
      using find_model_col_None [of cols] by simp
    with Some show ?thesis
      using find_model_col_Some [of cols c]
      by (auto simp: select_model_col_def)
  qed
  have c: "\<forall>cs. detect_columns (Some cols) = Inr cs \<longrightarrow> select_model_col cols = Inr (model_col cs)"
    by (auto simp: detect_columns_def Let_def split: sum.splits if_splits)
  from a b c show ?thesis by blast
qed

theorem identifier_column_exact_match_witness:
  "select_model_col [''Sample'', ''ModelId'', ''LeftGene'', ''RightGene''] = Inr ''ModelId'' \<and>
   select_model_col [''Sample'', ''LeftGene'', ''RightGene''] = Inr ''Sample''"
proof -
  have "[''Sample'', ''ModelId'', ''LeftGene'', ''RightGene'']
          = [''Sample''] @ ''ModelId'' # [''LeftGene'', ''RightGene''] \<and>
        ''ModelId'' \<in> set MODEL_COLS \<and> (\<forall>x \<in> set [''Sample'']. x \<notin> set MODEL_COLS)"
    by (simp add: MODEL_COLS_def)
  then have one: "select_model_col [''Sample'', ''ModelId'', ''LeftGene'', ''RightGene'']
      = Inr ''ModelId''"
    using identifier_column_exact_match
      [of "[''Sample'', ''ModelId'', ''LeftGene'', ''RightGene'']" "''ModelId''"]
    by blast
  have "\<forall>x \<in> set [''Sample'', ''LeftGene'', ''RightGene'']. x \<notin> set MODEL_COLS"
    by (simp add: MODEL_COLS_def)
  then have two: "select_model_col [''Sample'', ''LeftGene'', ''RightGene''] = Inr ''Sample''"
    using identifier_column_exact_match [of "[''Sample'', ''LeftGene'', ''RightGene'']" "''Sample''"]
    by simp
  from one two show ?thesis by simp
qed

text \<open>
  \<^bold>\<open>C5 as stated fails.\<close> The header \<^verbatim>\<open>modelid\<close> differs from the synonym \<^verbatim>\<open>ModelID\<close> only
  in letter case, and yet the identifier column of \<^verbatim>\<open>Sample,modelid,LeftGene,RightGene\<close>
  is \<^verbatim>\<open>Sample\<close>; with \<^verbatim>\<open>ModelID\<close> in its place the second column is taken.
\<close>

theorem identifier_header_case_counterexample:
  "lower ''modelid'' = lower ''ModelID'' \<and>
   map_sum id model_col
     (detect_columns (Some [''Sample'', ''modelid'', ''LeftGene'', ''RightGene'']))
     = Inr ''Sample'' \<and>
   map_sum id model_col
     (detect_columns (Some [''Sample'', ''ModelID'', ''LeftGene'', ''RightGene'']))
     = Inr ''ModelID''"
  by code_simp

section \<open>Agreement of the two gene sources\<close>











end
